theory Spec2Isabelle
  imports Main "HOL-Library.Product_Lexorder" "HOL-Library.List_Lexorder" "HOL-Library.Char_ord"
    "HOL-Library.Code_Target_Nat"
begin

section \<open>JavaScript values\<close>

text \<open>
  The service (\<^verbatim>\<open>apps/api/src/performance/performance.service.ts\<close>, class
  \<open>PerformanceService\<close>) keeps all its state in a Redis store and moves JavaScript values
  through \<open>JSON.stringify\<close> and \<open>JSON.parse\<close>. This section models what the code uses of
  the language: numbers with NaN, JSON values, the serialiser and the parser.

  Numbers are integers of unbounded size or \<open>NaN\<close> (which the code produces from
  \<open>undefined\<close> and from a division by zero); fractions and rounding are outside the model.
  Strings are lists of 8-bit characters.
\<close>

datatype jsnum = NaN | Num int

text \<open>
  A JSON value. An object is the list of its properties in insertion order; a JavaScript
  object has each key once (\<open>wf_json\<close> below).
\<close>

datatype json =
    JNull
  | JBool bool
  | JNum int
  | JStr string
  | JArr "json list"
  | JObj "(string \<times> json) list"

subsection \<open>Decimal numerals\<close>

text \<open>\<open>String(n)\<close> for an integer \<open>n\<close>: the decimal digits, with a minus sign.\<close>

definition is_digit :: "char \<Rightarrow> bool" where
  "is_digit c \<longleftrightarrow> (48::nat) \<le> of_char c \<and> of_char c \<le> (57::nat)"

definition digit_val :: "char \<Rightarrow> nat" where
  "digit_val c = of_char c - 48"

definition digit_char :: "nat \<Rightarrow> char" where
  "digit_char d = char_of (48 + d)"

fun show_nat :: "nat \<Rightarrow> string" where
  "show_nat n = (if n < 10 then [digit_char n] else show_nat (n div 10) @ [digit_char (n mod 10)])"

declare show_nat.simps [simp del]

definition show_int :: "int \<Rightarrow> string" where
  "show_int i = (if i < 0 then CHR ''-'' # show_nat (nat (- i)) else show_nat (nat i))"

definition nat_of_digits :: "string \<Rightarrow> nat" where
  "nat_of_digits ds = foldl (\<lambda>acc c. 10 * acc + digit_val c) 0 ds"

subsection \<open>JSON.stringify\<close>

text \<open>
  \<open>JSON.stringify\<close> writes the compact text: no white space, strings in double quotes
  with the quote, the backslash and the control characters escaped (\<open>\\b \\f \\n \\r \\t\<close>,
  otherwise \<open>\\u00XX\<close>).
\<close>

definition is_ws :: "char \<Rightarrow> bool" where
  "is_ws c \<longleftrightarrow> c = CHR '' '' \<or> c = CHR 0x09 \<or> c = CHR 0x0A \<or> c = CHR 0x0D"

definition hex_char :: "nat \<Rightarrow> char" where
  "hex_char d = (if d < 10 then char_of (48 + d) else char_of (87 + d))"

definition hex_val :: "char \<Rightarrow> nat option" where
  "hex_val c = (let n = (of_char c :: nat) in
     if 48 \<le> n \<and> n \<le> 57 then Some (n - 48)
     else if 97 \<le> n \<and> n \<le> 102 then Some (n - 87)
     else if 65 \<le> n \<and> n \<le> 70 then Some (n - 55)
     else None)"

definition escape_char :: "char \<Rightarrow> string" where
  "escape_char c =
     (if c = CHR 0x22 then [CHR 0x5C, CHR 0x22]
      else if c = CHR 0x5C then [CHR 0x5C, CHR 0x5C]
      else if c = CHR 0x08 then [CHR 0x5C, CHR ''b'']
      else if c = CHR 0x0C then [CHR 0x5C, CHR ''f'']
      else if c = CHR 0x0A then [CHR 0x5C, CHR ''n'']
      else if c = CHR 0x0D then [CHR 0x5C, CHR ''r'']
      else if c = CHR 0x09 then [CHR 0x5C, CHR ''t'']
      else if (of_char c :: nat) < 32 then
        [CHR 0x5C, CHR ''u'', CHR ''0'', CHR ''0'',
         hex_char (of_char c div 16), hex_char (of_char c mod 16)]
      else [c])"

definition quote :: "string \<Rightarrow> string" where
  "quote s = CHR 0x22 # concat (map escape_char s) @ [CHR 0x22]"

fun JSON_stringify :: "json \<Rightarrow> string"
  and stringify_elements :: "json list \<Rightarrow> string"
  and stringify_members :: "(string \<times> json) list \<Rightarrow> string"
where
  "JSON_stringify JNull = ''null''"
| "JSON_stringify (JBool b) = (if b then ''true'' else ''false'')"
| "JSON_stringify (JNum n) = show_int n"
| "JSON_stringify (JStr s) = quote s"
| "JSON_stringify (JArr []) = ''[]''"
| "JSON_stringify (JArr (v # vs)) = CHR ''['' # JSON_stringify v @ stringify_elements vs"
| "JSON_stringify (JObj []) = ''{}''"
| "JSON_stringify (JObj ((k, v) # kvs)) =
     CHR ''{'' # quote k @ CHR '':'' # JSON_stringify v @ stringify_members kvs"
| "stringify_elements [] = '']''"
| "stringify_elements (v # vs) = CHR '','' # JSON_stringify v @ stringify_elements vs"
| "stringify_members [] = ''}''"
| "stringify_members ((k, v) # kvs) =
     CHR '','' # quote k @ CHR '':'' # JSON_stringify v @ stringify_members kvs"

subsection \<open>JSON.parse\<close>

text \<open>
  \<open>JSON.parse\<close> is a recursive-descent parser with fuel (the length of the text bounds the
  depth of the recursion, so the fuel given by \<open>JSON_parse\<close> never runs out on a text the
  grammar accepts). It skips white space between tokens, rejects leading zeros and raw
  control characters in strings, and returns \<open>None\<close> where JavaScript raises SyntaxError.
  A number with a fraction or an exponent is rejected, since the model has integers only.
  A repeated key keeps its first position and its last value, as in JavaScript.
\<close>

definition unescape :: "char \<Rightarrow> char option" where
  "unescape e =
     (if e = CHR 0x22 then Some (CHR 0x22)
      else if e = CHR 0x5C then Some (CHR 0x5C)
      else if e = CHR ''/'' then Some (CHR ''/'')
      else if e = CHR ''b'' then Some (CHR 0x08)
      else if e = CHR ''f'' then Some (CHR 0x0C)
      else if e = CHR ''n'' then Some (CHR 0x0A)
      else if e = CHR ''r'' then Some (CHR 0x0D)
      else if e = CHR ''t'' then Some (CHR 0x09)
      else None)"

definition hex4 :: "char \<Rightarrow> char \<Rightarrow> char \<Rightarrow> char \<Rightarrow> nat option" where
  "hex4 a b c d =
     (case (hex_val a, hex_val b, hex_val c, hex_val d) of
        (Some w, Some x, Some y, Some z) \<Rightarrow> Some (((w * 16 + x) * 16 + y) * 16 + z)
      | _ \<Rightarrow> None)"

definition cons_char :: "char \<Rightarrow> (string \<times> string) option \<Rightarrow> (string \<times> string) option" where
  "cons_char c r = (case r of None \<Rightarrow> None | Some (str, rest) \<Rightarrow> Some (c # str, rest))"

fun parse_chars :: "string \<Rightarrow> (string \<times> string) option" where
  "parse_chars [] = None"
| "parse_chars (c # s) =
     (if c = CHR 0x22 then Some ([], s)
      else if c = CHR 0x5C then
        (case s of
           [] \<Rightarrow> None
         | e # s1 \<Rightarrow>
             if e = CHR ''u'' then
               (case s1 of
                  h1 # h2 # h3 # h4 # s2 \<Rightarrow>
                    (case hex4 h1 h2 h3 h4 of
                       None \<Rightarrow> None
                     | Some n \<Rightarrow> if n < 256 then cons_char (char_of n) (parse_chars s2) else None)
                | _ \<Rightarrow> None)
             else
               (case unescape e of
                  None \<Rightarrow> None
                | Some d \<Rightarrow> cons_char d (parse_chars s1)))
      else if (of_char c :: nat) < 32 then None
      else cons_char c (parse_chars s))"

definition parse_number :: "string \<Rightarrow> (json \<times> string) option" where
  "parse_number s =
     (let neg = (s \<noteq> [] \<and> hd s = CHR ''-'');
          s1 = (if neg then tl s else s);
          ds = takeWhile is_digit s1
      in if ds = [] \<or> (1 < length ds \<and> hd ds = CHR ''0'') then None
         else Some (JNum (if neg then - int (nat_of_digits ds) else int (nat_of_digits ds)),
                    dropWhile is_digit s1))"

fun obj_set :: "string \<Rightarrow> json \<Rightarrow> (string \<times> json) list \<Rightarrow> (string \<times> json) list" where
  "obj_set k v [] = [(k, v)]"
| "obj_set k v ((k', v') # kvs) = (if k' = k then (k, v) # kvs else (k', v') # obj_set k v kvs)"

definition skip_ws :: "string \<Rightarrow> string" where
  "skip_ws s = dropWhile is_ws s"

fun parse_value :: "nat \<Rightarrow> string \<Rightarrow> (json \<times> string) option"
  and parse_elements :: "nat \<Rightarrow> string \<Rightarrow> (json list \<times> string) option"
  and parse_member :: "nat \<Rightarrow> string \<Rightarrow> ((string \<times> json) \<times> string) option"
  and parse_members :: "nat \<Rightarrow> string \<Rightarrow> ((string \<times> json) list \<times> string) option"
where
  "parse_value 0 s = None"
| "parse_value (Suc n) s =
     (case skip_ws s of
        [] \<Rightarrow> None
      | c # r \<Rightarrow>
          if c = CHR ''n'' then (if take 3 r = ''ull'' then Some (JNull, drop 3 r) else None)
          else if c = CHR ''t'' then (if take 3 r = ''rue'' then Some (JBool True, drop 3 r) else None)
          else if c = CHR ''f'' then (if take 4 r = ''alse'' then Some (JBool False, drop 4 r) else None)
          else if c = CHR 0x22 then
            (case parse_chars r of None \<Rightarrow> None | Some (str, r1) \<Rightarrow> Some (JStr str, r1))
          else if c = CHR ''['' then
            (case skip_ws r of
               [] \<Rightarrow> None
             | c1 # r1 \<Rightarrow>
                 if c1 = CHR '']'' then Some (JArr [], r1)
                 else (case parse_value n r of
                         None \<Rightarrow> None
                       | Some (v, r2) \<Rightarrow>
                           (case parse_elements n r2 of
                              None \<Rightarrow> None
                            | Some (vs, r3) \<Rightarrow> Some (JArr (v # vs), r3))))
          else if c = CHR ''{'' then
            (case skip_ws r of
               [] \<Rightarrow> None
             | c1 # r1 \<Rightarrow>
                 if c1 = CHR ''}'' then Some (JObj [], r1)
                 else (case parse_member n r of
                         None \<Rightarrow> None
                       | Some (kv, r2) \<Rightarrow>
                           (case parse_members n r2 of
                              None \<Rightarrow> None
                            | Some (kvs, r3) \<Rightarrow>
                                Some (JObj (foldl (\<lambda>obj (k, v). obj_set k v obj) [] (kv # kvs)), r3))))
          else parse_number (c # r))"
| "parse_elements 0 s = None"
| "parse_elements (Suc n) s =
     (case skip_ws s of
        [] \<Rightarrow> None
      | c # r \<Rightarrow>
          if c = CHR '']'' then Some ([], r)
          else if c = CHR '','' then
            (case parse_value n r of
               None \<Rightarrow> None
             | Some (v, r1) \<Rightarrow>
                 (case parse_elements n r1 of
                    None \<Rightarrow> None
                  | Some (vs, r2) \<Rightarrow> Some (v # vs, r2)))
          else None)"
| "parse_member 0 s = None"
| "parse_member (Suc n) s =
     (case skip_ws s of
        [] \<Rightarrow> None
      | c # r \<Rightarrow>
          if c = CHR 0x22 then
            (case parse_chars r of
               None \<Rightarrow> None
             | Some (k, r1) \<Rightarrow>
                 (case skip_ws r1 of
                    [] \<Rightarrow> None
                  | c1 # r2 \<Rightarrow>
                      if c1 = CHR '':'' then
                        (case parse_value n r2 of
                           None \<Rightarrow> None
                         | Some (v, r3) \<Rightarrow> Some ((k, v), r3))
                      else None))
          else None)"
| "parse_members 0 s = None"
| "parse_members (Suc n) s =
     (case skip_ws s of
        [] \<Rightarrow> None
      | c # r \<Rightarrow>
          if c = CHR ''}'' then Some ([], r)
          else if c = CHR '','' then
            (case parse_member n r of
               None \<Rightarrow> None
             | Some (kv, r1) \<Rightarrow>
                 (case parse_members n r1 of
                    None \<Rightarrow> None
                  | Some (kvs, r2) \<Rightarrow> Some (kv # kvs, r2)))
          else None)"

definition JSON_parse :: "string \<Rightarrow> json option" where
  "JSON_parse s =
     (case parse_value (Suc (Suc (length s))) s of
        None \<Rightarrow> None
      | Some (v, rest) \<Rightarrow> if skip_ws rest = [] then Some v else None)"

text \<open>The values a JavaScript program can hold: every object has distinct keys.\<close>

fun wf_json :: "json \<Rightarrow> bool" where
  "wf_json (JArr vs) = list_all wf_json vs"
| "wf_json (JObj kvs) = (distinct (map fst kvs) \<and> list_all (\<lambda>kv. wf_json (snd kv)) kvs)"
| "wf_json v = True"

subsection \<open>Arithmetic, comparison and coercions\<close>

text \<open>
  Arithmetic with \<open>NaN\<close> gives \<open>NaN\<close>, a comparison with \<open>NaN\<close> is false, and
  \<open>undefined\<close> converts to \<open>NaN\<close> (\<open>to_number\<close>). \<open>parseInt\<close> skips leading white space,
  reads a sign, a \<open>0x\<close> prefix and the longest run of digits, and gives \<open>NaN\<close> when there is
  none. \<open>truthy\<close> is the truth value of \<open>string | null\<close>: null and the empty string are
  false. \<open>js_spread\<close> is \<open>{...v}\<close>, \<open>js_string\<close> is \<open>String(v)\<close>, and \<open>to_arg\<close> is the
  conversion the Redis client applies to a command argument (null and undefined become the
  empty string).
\<close>

fun js_add :: "jsnum \<Rightarrow> jsnum \<Rightarrow> jsnum" where
  "js_add (Num a) (Num b) = Num (a + b)"
| "js_add _ _ = NaN"

fun js_sub :: "jsnum \<Rightarrow> jsnum \<Rightarrow> jsnum" where
  "js_sub (Num a) (Num b) = Num (a - b)"
| "js_sub _ _ = NaN"

fun js_mul :: "jsnum \<Rightarrow> jsnum \<Rightarrow> jsnum" where
  "js_mul (Num a) (Num b) = Num (a * b)"
| "js_mul _ _ = NaN"

fun js_max :: "jsnum \<Rightarrow> jsnum \<Rightarrow> jsnum" where
  "js_max (Num a) (Num b) = Num (max a b)"
| "js_max _ _ = NaN"

fun js_le :: "jsnum \<Rightarrow> jsnum \<Rightarrow> bool" where
  "js_le (Num a) (Num b) = (a \<le> b)"
| "js_le _ _ = False"

fun js_gt :: "jsnum \<Rightarrow> jsnum \<Rightarrow> bool" where
  "js_gt (Num a) (Num b) = (a > b)"
| "js_gt _ _ = False"

definition to_number :: "int option \<Rightarrow> jsnum" where
  "to_number v = (case v of None \<Rightarrow> NaN | Some n \<Rightarrow> Num n)"

definition is_js_space :: "char \<Rightarrow> bool" where
  "is_js_space c \<longleftrightarrow> c = CHR '' '' \<or> ((9::nat) \<le> of_char c \<and> of_char c \<le> (13::nat)) \<or> c = CHR 0xA0"

definition is_hex :: "char \<Rightarrow> bool" where
  "is_hex c \<longleftrightarrow> hex_val c \<noteq> None"

definition nat_of_hex :: "string \<Rightarrow> nat" where
  "nat_of_hex hs = foldl (\<lambda>acc c. 16 * acc + (case hex_val c of None \<Rightarrow> 0 | Some d \<Rightarrow> d)) 0 hs"

definition parseInt :: "string \<Rightarrow> jsnum" where
  "parseInt s =
     (let s1 = dropWhile is_js_space s;
          neg = (s1 \<noteq> [] \<and> hd s1 = CHR ''-'');
          s2 = (if s1 \<noteq> [] \<and> (hd s1 = CHR ''-'' \<or> hd s1 = CHR ''+'') then tl s1 else s1)
      in if take 2 s2 = ''0x'' \<or> take 2 s2 = ''0X'' then
           (let hs = takeWhile is_hex (drop 2 s2)
            in if hs = [] then NaN
               else Num (if neg then - int (nat_of_hex hs) else int (nat_of_hex hs)))
         else
           (let ds = takeWhile is_digit s2
            in if ds = [] then NaN
               else Num (if neg then - int (nat_of_digits ds) else int (nat_of_digits ds))))"

definition truthy :: "string option \<Rightarrow> bool" where
  "truthy v = (case v of None \<Rightarrow> False | Some s \<Rightarrow> s \<noteq> [])"




fun js_string :: "json \<Rightarrow> string"
  and js_join :: "json list \<Rightarrow> string"
where
  "js_string JNull = ''null''"
| "js_string (JBool b) = (if b then ''true'' else ''false'')"
| "js_string (JNum n) = show_int n"
| "js_string (JStr s) = s"
| "js_string (JArr vs) = js_join vs"
| "js_string (JObj kvs) = ''[object Object]''"
| "js_join [] = []"
| "js_join [v] = (if v = JNull then [] else js_string v)"
| "js_join (v # w # vs) = (if v = JNull then [] else js_string v) @ CHR '','' # js_join (w # vs)"


section \<open>The keyed store\<close>

text \<open>
  The store is a Redis server reached through the \<open>ioredis\<close> client; neither is part of the
  repository, so the commands the service issues are modelled from their documented
  behaviour. A key holds a string, a sorted set or a hash, with an optional expiry time in
  milliseconds; a command on a value of the wrong type fails (\<open>WrongType\<close>). An expired key
  reads as absent (\<open>lookup\<close>), and a write to it starts from nothing.

  A \<open>world\<close> is the keyspace, the clock (milliseconds, read by \<open>Date.now()\<close> and by the
  server; time passes only in \<open>sleep\<close>, round trips take none) and the connection faults
  to come: one boolean per round trip, \<open>True\<close> when that round trip is lost.

  A sorted set is the list of its (score, member) pairs in ascending order of score, then
  of member, with each member once. Scores are integers.
\<close>

datatype exn =
    ConnectionLost
  | WrongType
  | NotAnInteger
  | NotAFloat
  | InvalidExpire
  | SyntaxError
  | TypeError

datatype rvalue =
    RString string
  | RZSet "(int \<times> string) list"
  | RHash "(string \<times> string) list"

record entry =
  stored :: rvalue
  deadline :: "int option"

record world =
  db :: "string \<rightharpoonup> entry"
  clock :: int
  faults :: "bool list"

type_synonym 'a io = "world \<Rightarrow> (exn + 'a) \<times> world"

text \<open>An entry is live up to and including its deadline.\<close>

definition live :: "int \<Rightarrow> entry \<Rightarrow> bool" where
  "live now e = (case deadline e of None \<Rightarrow> True | Some d \<Rightarrow> now \<le> d)"

definition lookup_entry :: "world \<Rightarrow> string \<Rightarrow> entry option" where
  "lookup_entry w k = (case db w k of None \<Rightarrow> None | Some e \<Rightarrow> if live (clock w) e then Some e else None)"

definition lookup :: "world \<Rightarrow> string \<Rightarrow> rvalue option" where
  "lookup w k = map_option stored (lookup_entry w k)"

definition store :: "string \<Rightarrow> rvalue \<Rightarrow> int option \<Rightarrow> world \<Rightarrow> world" where
  "store k v d w = w\<lparr>db := (db w)(k \<mapsto> \<lparr>stored = v, deadline = d\<rparr>)\<rparr>"

definition remove :: "string \<Rightarrow> world \<Rightarrow> world" where
  "remove k w = w\<lparr>db := (db w)(k := None)\<rparr>"

definition ttl_of :: "world \<Rightarrow> string \<Rightarrow> int option" where
  "ttl_of w k = (case lookup_entry w k of None \<Rightarrow> None | Some e \<Rightarrow> deadline e)"

subsection \<open>Commands\<close>

text \<open>
  Each command maps a world to a reply or an error, and a new world. \<open>redis_int\<close> reads a
  stored string as a signed 64-bit integer the way \<open>INCR\<close> does (no sign \<open>+\<close>, no leading
  zeros, no white space). \<open>SET\<close> without options removes the expiry; \<open>SET NX PX\<close> and
  \<open>SETEX\<close> refuse a non-positive expiry; \<open>EXPIRE\<close> with a non-positive time deletes the
  key; a sorted set or hash that becomes empty is deleted; \<open>INCR\<close>, \<open>ZADD\<close> and \<open>HSET\<close>
  keep the expiry of an existing key.
\<close>

definition redis_int :: "string \<Rightarrow> int option" where
  "redis_int s =
     (if s = ''0'' then Some 0
      else
        (let neg = (s \<noteq> [] \<and> hd s = CHR ''-'');
             ds = (if neg then tl s else s)
         in if ds = [] \<or> \<not> list_all is_digit ds \<or> hd ds = CHR ''0'' then None
            else
              (let v = (if neg then - int (nat_of_digits ds) else int (nat_of_digits ds))
               in if - (2 ^ 63) \<le> v \<and> v < 2 ^ 63 then Some v else None)))"

definition GET :: "string \<Rightarrow> string option io" where
  "GET k w =
     (case lookup w k of
        None \<Rightarrow> (Inr None, w)
      | Some (RString s) \<Rightarrow> (Inr (Some s), w)
      | Some _ \<Rightarrow> (Inl WrongType, w))"

definition SET :: "string \<Rightarrow> string \<Rightarrow> string io" where
  "SET k v w = (Inr ''OK'', store k (RString v) None w)"


definition SETEX :: "string \<Rightarrow> int \<Rightarrow> string \<Rightarrow> string io" where
  "SETEX k seconds v w =
     (if seconds \<le> 0 then (Inl InvalidExpire, w)
      else (Inr ''OK'', store k (RString v) (Some (clock w + seconds * 1000)) w))"

definition DEL :: "string \<Rightarrow> int io" where
  "DEL k w = (if lookup w k = None then (Inr 0, remove k w) else (Inr 1, remove k w))"

definition INCR :: "string \<Rightarrow> int io" where
  "INCR k w =
     (case lookup w k of
        None \<Rightarrow> (Inr 1, store k (RString ''1'') None w)
      | Some (RString s) \<Rightarrow>
          (case redis_int s of
             None \<Rightarrow> (Inl NotAnInteger, w)
           | Some n \<Rightarrow>
               if n + 1 < 2 ^ 63
               then (Inr (n + 1), store k (RString (show_int (n + 1))) (ttl_of w k) w)
               else (Inl NotAnInteger, w))
      | Some _ \<Rightarrow> (Inl WrongType, w))"

definition zset_put :: "int \<Rightarrow> string \<Rightarrow> (int \<times> string) list \<Rightarrow> (int \<times> string) list" where
  "zset_put score member zs = insort (score, member) (filter (\<lambda>sm. snd sm \<noteq> member) zs)"

definition ZADD :: "string \<Rightarrow> int \<Rightarrow> string \<Rightarrow> int io" where
  "ZADD k score member w =
     (case lookup w k of
        None \<Rightarrow> (Inr 1, store k (RZSet [(score, member)]) None w)
      | Some (RZSet zs) \<Rightarrow>
          (Inr (if member \<in> snd ` set zs then 0 else 1),
           store k (RZSet (zset_put score member zs)) (ttl_of w k) w)
      | Some _ \<Rightarrow> (Inl WrongType, w))"

definition ZREMRANGEBYSCORE :: "string \<Rightarrow> jsnum \<Rightarrow> jsnum \<Rightarrow> int io" where
  "ZREMRANGEBYSCORE k lo hi w =
     (case (lo, hi) of
        (Num l, Num h) \<Rightarrow>
          (case lookup w k of
             None \<Rightarrow> (Inr 0, w)
           | Some (RZSet zs) \<Rightarrow>
               (let keep = filter (\<lambda>sm. \<not> (l \<le> fst sm \<and> fst sm \<le> h)) zs
                in (Inr (int (length zs) - int (length keep)),
                    if keep = [] then remove k w else store k (RZSet keep) (ttl_of w k) w))
           | Some _ \<Rightarrow> (Inl WrongType, w))
      | _ \<Rightarrow> (Inl NotAFloat, w))"

definition ZCOUNT_from :: "string \<Rightarrow> jsnum \<Rightarrow> int io" where
  "ZCOUNT_from k lo w =
     (case lo of
        Num l \<Rightarrow>
          (case lookup w k of
             None \<Rightarrow> (Inr 0, w)
           | Some (RZSet zs) \<Rightarrow> (Inr (int (length (filter (\<lambda>sm. l \<le> fst sm) zs))), w)
           | Some _ \<Rightarrow> (Inl WrongType, w))
      | NaN \<Rightarrow> (Inl NotAFloat, w))"

definition EXPIRE :: "string \<Rightarrow> jsnum \<Rightarrow> int io" where
  "EXPIRE k seconds w =
     (case seconds of
        NaN \<Rightarrow> (Inl NotAnInteger, w)
      | Num s \<Rightarrow>
          (case lookup_entry w k of
             None \<Rightarrow> (Inr 0, w)
           | Some e \<Rightarrow>
               if s \<le> 0 then (Inr 1, remove k w)
               else (Inr 1, store k (stored e) (Some (clock w + s * 1000)) w)))"


fun hash_put :: "string \<Rightarrow> string \<Rightarrow> (string \<times> string) list \<Rightarrow> (string \<times> string) list" where
  "hash_put f v [] = [(f, v)]"
| "hash_put f v ((f', v') # h) = (if f' = f then (f, v) # h else (f', v') # hash_put f v h)"

definition HSET :: "string \<Rightarrow> string \<Rightarrow> string \<Rightarrow> int io" where
  "HSET k field v w =
     (case lookup w k of
        None \<Rightarrow> (Inr 1, store k (RHash [(field, v)]) None w)
      | Some (RHash h) \<Rightarrow>
          (Inr (if field \<in> fst ` set h then 0 else 1),
           store k (RHash (hash_put field v h)) (ttl_of w k) w)
      | Some _ \<Rightarrow> (Inl WrongType, w))"



section \<open>Promises\<close>

text \<open>
  An asynchronous computation maps a world to a result, \<open>Inr\<close> a value or \<open>Inl\<close> the
  exception it rejects with, and the world it leaves. \<open>await\<close> continues with the value or
  passes the rejection on; \<open>try_catch\<close> is \<open>try { ... } catch (error) { ... }\<close>;
  \<open>promise_all2\<close> is \<open>Promise.all\<close> of two promises: both run, and the first rejection
  wins.

  \<open>call\<close> is one round trip of a single command: it consumes the next connection fault and
  rejects with \<open>ConnectionLost\<close> when the round trip is lost. \<open>pipeline_exec\<close> is
  \<open>pipeline.exec()\<close>: one round trip for the queued commands, whose promise resolves with one
  \<open>[err, result]\<close> pair per command and does not reject; on a lost connection every pair
  carries the error. \<open>reply_value\<close> reads the \<open>[1]\<close> component of a pair, which is
  \<open>undefined\<close> when the pair carries an error.
\<close>

definition resolve :: "'a \<Rightarrow> 'a io" where
  "resolve v w = (Inr v, w)"

definition reject :: "exn \<Rightarrow> 'a io" where
  "reject e w = (Inl e, w)"

definition await :: "'a io \<Rightarrow> ('a \<Rightarrow> 'b io) \<Rightarrow> 'b io" where
  "await m f w = (case m w of (Inl e, w1) \<Rightarrow> (Inl e, w1) | (Inr v, w1) \<Rightarrow> f v w1)"

definition try_catch :: "'a io \<Rightarrow> (exn \<Rightarrow> 'a io) \<Rightarrow> 'a io" where
  "try_catch body handler w =
     (case body w of (Inl e, w1) \<Rightarrow> handler e w1 | (Inr v, w1) \<Rightarrow> (Inr v, w1))"

definition promise_all2 :: "'a io \<Rightarrow> 'b io \<Rightarrow> ('a \<times> 'b) io" where
  "promise_all2 m1 m2 w =
     (case m1 w of
        (r1, w1) \<Rightarrow>
          (case m2 w1 of
             (r2, w2) \<Rightarrow>
               (case r1 of
                  Inl e \<Rightarrow> (Inl e, w2)
                | Inr a \<Rightarrow> (case r2 of Inl e \<Rightarrow> (Inl e, w2) | Inr b \<Rightarrow> (Inr (a, b), w2)))))"

definition Date_now :: "int io" where
  "Date_now w = (Inr (clock w), w)"


definition call :: "'a io \<Rightarrow> 'a io" where
  "call cmd w =
     (case faults w of
        [] \<Rightarrow> cmd w
      | lost # fs \<Rightarrow>
          if lost then (Inl ConnectionLost, w\<lparr>faults := fs\<rparr>) else cmd (w\<lparr>faults := fs\<rparr>))"

fun run_queued :: "int io list \<Rightarrow> world \<Rightarrow> (exn + int) list \<times> world" where
  "run_queued [] w = ([], w)"
| "run_queued (c # cs) w =
     (case c w of (r, w1) \<Rightarrow> (case run_queued cs w1 of (rs, w2) \<Rightarrow> (r # rs, w2)))"

definition pipeline_exec :: "int io list \<Rightarrow> (exn + int) list io" where
  "pipeline_exec cs w =
     (case faults w of
        [] \<Rightarrow> (case run_queued cs w of (rs, w1) \<Rightarrow> (Inr rs, w1))
      | lost # fs \<Rightarrow>
          if lost then (Inr (map (\<lambda>c. Inl ConnectionLost) cs), w\<lparr>faults := fs\<rparr>)
          else (case run_queued cs (w\<lparr>faults := fs\<rparr>) of (rs, w1) \<Rightarrow> (Inr rs, w1)))"

definition reply_value :: "(exn + int) \<Rightarrow> int option" where
  "reply_value r = (case r of Inl e \<Rightarrow> None | Inr n \<Rightarrow> Some n)"

section \<open>PerformanceService\<close>

text \<open>
  The methods of the class, in the order of the source. An optional parameter with a default
  is an argument (\<open>None\<close> for the default of \<open>setCachedData\<close>); the result of
  \<open>Math.random()\<close>, already converted to a string, is the argument \<open>random\<close>.
\<close>

subsection \<open>Cache\<close>

text \<open>
  \<^verbatim>\<open>const data = await this.redis.get(key); return data ? JSON.parse(data) : null;\<close>
  inside \<open>try\<close>, with \<open>catch\<close> returning null; \<open>setCachedData\<close> is
  \<^verbatim>\<open>await this.redis.setex(key, ttl, JSON.stringify(data))\<close> and \<open>invalidateCache\<close> is
  \<^verbatim>\<open>await this.redis.del(key)\<close>, both with the error swallowed.
\<close>

definition cacheTTL :: int where
  "cacheTTL = 3600"

definition getCachedData :: "string \<Rightarrow> json io" where
  "getCachedData key =
     try_catch
       (await (call (GET key)) (\<lambda>data.
          if truthy data
          then (case JSON_parse (the data) of None \<Rightarrow> reject SyntaxError | Some v \<Rightarrow> resolve v)
          else resolve JNull))
       (\<lambda>error. resolve JNull)"

definition setCachedData :: "string \<Rightarrow> json \<Rightarrow> int option \<Rightarrow> unit io" where
  "setCachedData key data ttl =
     try_catch
       (await (call (SETEX key (case ttl of None \<Rightarrow> cacheTTL | Some t \<Rightarrow> t) (JSON_stringify data)))
          (\<lambda>ok. resolve ()))
       (\<lambda>error. resolve ())"

definition invalidateCache :: "string \<Rightarrow> unit io" where
  "invalidateCache key =
     try_catch (await (call (DEL key)) (\<lambda>n. resolve ())) (\<lambda>error. resolve ())"

subsection \<open>Rate limiter\<close>

text \<open>
  \<^verbatim>\<open>const now = Date.now();\<close>
  \<^verbatim>\<open>const windowStart = Math.floor(now / 1000 / windowSeconds) * windowSeconds;\<close>
  \<^verbatim>\<open>pipeline.zremrangebyscore(key, 0, windowStart - windowSeconds);\<close>
  \<^verbatim>\<open>pipeline.zadd(key, now, now.toString());\<close>
  \<^verbatim>\<open>pipeline.zcount(key, windowStart, '+inf');\<close>
  \<^verbatim>\<open>pipeline.expire(key, windowSeconds * 2);\<close>
  \<^verbatim>\<open>const results = await pipeline.exec();\<close>
  \<^verbatim>\<open>const requestCount = results[2][1] as number;\<close>
  \<^verbatim>\<open>const allowed = requestCount <= limit;\<close>
  \<^verbatim>\<open>const remaining = Math.max(0, limit - requestCount);\<close>
  \<^verbatim>\<open>const resetTime = (windowStart + windowSeconds) * 1000;\<close>
  The catch block returns \<open>{allowed: true, remaining: limit, resetTime: 0}\<close>.
  \<open>windowStart\<close> is in seconds and is \<open>NaN\<close> when \<open>windowSeconds\<close> is 0; the score
  \<open>now\<close> is in milliseconds.
\<close>

record rate_limit =
  allowed :: bool
  remaining :: jsnum
  resetTime :: jsnum

definition window_start :: "int \<Rightarrow> int \<Rightarrow> jsnum" where
  "window_start now windowSeconds =
     (if windowSeconds = 0 then NaN else Num (now div (1000 * windowSeconds) * windowSeconds))"

definition checkRateLimit :: "string \<Rightarrow> string \<Rightarrow> int \<Rightarrow> int \<Rightarrow> rate_limit io" where
  "checkRateLimit identifier action limit windowSeconds =
     (let key = ''ratelimit:'' @ action @ '':'' @ identifier in
      await Date_now (\<lambda>now.
        let windowStart = window_start now windowSeconds in
        try_catch
          (await (pipeline_exec
                    [ZREMRANGEBYSCORE key (Num 0) (js_sub windowStart (Num windowSeconds)),
                     ZADD key now (show_int now),
                     ZCOUNT_from key windowStart,
                     EXPIRE key (Num (windowSeconds * 2))])
             (\<lambda>results.
                let requestCount = to_number (reply_value (results ! 2)) in
                resolve \<lparr>allowed = js_le requestCount (Num limit),
                         remaining = js_max (Num 0) (js_sub (Num limit) requestCount),
                         resetTime = js_mul (js_add windowStart (Num windowSeconds)) (Num 1000)\<rparr>))
          (\<lambda>error. resolve \<lparr>allowed = True, remaining = Num limit, resetTime = Num 0\<rparr>)))"

subsection \<open>Circuit breaker\<close>

text \<open>
  \<open>checkCircuitBreaker\<close> reads the failures counter and the state together
  (\<open>Promise.all\<close>), parses the counter into \<open>failures\<close> and never uses it, nor its
  parameter \<open>failureThreshold\<close>. In state \<open>open\<close> it reads \<open>last_failure\<close> and, when
  \<^verbatim>\<open>lastFailureTime && Date.now() - parseInt(lastFailureTime) > recoveryTimeout\<close>,
  sets the state to \<open>half-open\<close> and returns true, otherwise returns false; in state
  \<open>half-open\<close> it sets the state to \<open>closed\<close>, deletes the counter and returns true;
  otherwise it returns true. The catch block returns true.
  \<open>recordCircuitBreakerFailure\<close> increments the counter, stores \<open>Date.now()\<close> in
  \<open>last_failure\<close> and, \<^verbatim>\<open>if (failures >= 5)\<close>, sets the state to \<open>open\<close>.
\<close>

definition checkCircuitBreaker :: "string \<Rightarrow> int \<Rightarrow> int \<Rightarrow> bool io" where
  "checkCircuitBreaker serviceName failureThreshold recoveryTimeout =
     (let failureKey = ''circuit:'' @ serviceName @ '':failures'';
          stateKey = ''circuit:'' @ serviceName @ '':state''
      in try_catch
           (await (promise_all2 (call (GET failureKey)) (call (GET stateKey))) (\<lambda>(failureCount, state).
              let failures = parseInt (if truthy failureCount then the failureCount else ''0'') in
              if state = Some ''open'' then
                await (call (GET (''circuit:'' @ serviceName @ '':last_failure''))) (\<lambda>lastFailureTime.
                  await Date_now (\<lambda>now.
                    if truthy lastFailureTime
                       \<and> js_gt (js_sub (Num now) (parseInt (the lastFailureTime))) (Num recoveryTimeout)
                    then await (call (SET stateKey ''half-open'')) (\<lambda>ok. resolve True)
                    else resolve False))
              else if state = Some ''half-open'' then
                await (call (SET stateKey ''closed'')) (\<lambda>ok.
                  await (call (DEL failureKey)) (\<lambda>n. resolve True))
              else resolve True))
           (\<lambda>error. resolve True))"

definition recordCircuitBreakerFailure :: "string \<Rightarrow> unit io" where
  "recordCircuitBreakerFailure serviceName =
     (let failureKey = ''circuit:'' @ serviceName @ '':failures'';
          stateKey = ''circuit:'' @ serviceName @ '':state''
      in try_catch
           (await (call (INCR failureKey)) (\<lambda>failures.
              await Date_now (\<lambda>now.
                await (call (SET (''circuit:'' @ serviceName @ '':last_failure'') (show_int now))) (\<lambda>ok.
                  if failures \<ge> 5
                  then await (call (SET stateKey ''open'')) (\<lambda>ok. resolve ())
                  else resolve ()))))
           (\<lambda>error. resolve ()))"

subsection \<open>Distributed lock\<close>





definition release_script :: "string \<Rightarrow> string \<Rightarrow> int io" where
  "release_script key arg =
     await (GET key) (\<lambda>v. if v = Some arg then DEL key else resolve 0)"

definition releaseLock :: "string \<Rightarrow> string \<Rightarrow> bool io" where
  "releaseLock key lockId =
     try_catch
       (await (call (release_script key lockId)) (\<lambda>result. resolve (result = 1)))
       (\<lambda>error. resolve False)"

subsection \<open>Job queue\<close>

text \<open>
  \<open>enqueueJob\<close> builds \<open>{id, data, priority, createdAt, status: 'queued'}\<close> with
  \<open>id = job:<Date.now()>:<Math.random()>\<close>, adds its serialisation to the sorted set
  \<open><queue>:queue\<close> with the priority as score, stores it in the hash \<open><queue>:jobs\<close>
  under the id, and rethrows any error. \<open>dequeueJob\<close> pops the member of lowest score,
  parses it, writes \<open>{...job, status: 'processing', startedAt: Date.now()}\<close> to the hash
  under \<open>job.id\<close> and returns \<open>job\<close>, the parsed member; the catch block returns null.
  \<open>completeJob\<close> and \<open>failJob\<close> read the hash record and, if there is one, write it back
  with \<open>status\<close>, the time stamp and \<open>result\<close> or \<open>error\<close> merged in. A property whose
  value is \<open>undefined\<close> is not serialised (\<open>obj_put\<close> with \<open>None\<close>); \<open>js_get\<close> is a
  property read, which raises TypeError on null.
\<close>

definition new_job :: "string \<Rightarrow> json \<Rightarrow> int \<Rightarrow> int \<Rightarrow> json" where
  "new_job jobId jobData priority now =
     JObj [(''id'', JStr jobId), (''data'', jobData), (''priority'', JNum priority),
           (''createdAt'', JNum now), (''status'', JStr ''queued'')]"

definition enqueueJob :: "string \<Rightarrow> json \<Rightarrow> int \<Rightarrow> string \<Rightarrow> string io" where
  "enqueueJob queueName jobData priority random =
     try_catch
       (await Date_now (\<lambda>now.
          let jobId = ''job:'' @ show_int now @ '':'' @ random;
              job = new_job jobId jobData priority now
          in await (call (ZADD (queueName @ '':queue'') priority (JSON_stringify job))) (\<lambda>added.
               await (call (HSET (queueName @ '':jobs'') jobId (JSON_stringify job))) (\<lambda>n.
                 resolve jobId))))
       (\<lambda>error. reject error)"





section \<open>Notions used in the statements\<close>

text \<open>
  \<open>reachable w\<close>: the next round trip is not lost; \<open>after_call w\<close>: the world once that round
  trip is consumed. \<open>held_until w k t\<close>: key \<open>k\<close> is present with a lease that has not ended
  at time \<open>t\<close>. \<open>with_counter\<close> replaces the entry of a service's failures counter, and
  \<open>same_but_counter\<close> relates two worlds that agree on everything else. \<open>index q w\<close> is the
  list of members of the queue's sorted set, \<open>enqueued_record m\<close> says that \<open>m\<close> is the
  serialisation of a record built by \<open>new_job\<close>, and \<open>run_ops\<close> runs a sequence of queue
  operations and lists what each did. \<open>world0\<close> is an empty store at time 1000 with no
  faults; the other named worlds are built from it.
\<close>

definition rest_ok :: "string \<Rightarrow> bool" where
  "rest_ok rest \<longleftrightarrow> rest = [] \<or> \<not> is_digit (hd rest)"

definition value_start :: "char \<Rightarrow> bool" where
  "value_start c \<longleftrightarrow> c = CHR ''n'' \<or> c = CHR ''t'' \<or> c = CHR ''f'' \<or> c = CHR 0x22
     \<or> c = CHR ''['' \<or> c = CHR ''{'' \<or> c = CHR ''-'' \<or> is_digit c"

definition reachable :: "world \<Rightarrow> bool" where
  "reachable w = (case faults w of [] \<Rightarrow> True | lost # fs \<Rightarrow> \<not> lost)"

definition after_call :: "world \<Rightarrow> world" where
  "after_call w = w\<lparr>faults := tl (faults w)\<rparr>"


definition failure_key :: "string \<Rightarrow> string" where
  "failure_key serviceName = ''circuit:'' @ serviceName @ '':failures''"

definition counter_entry :: "entry option \<Rightarrow> bool" where
  "counter_entry e = (case e of None \<Rightarrow> True | Some x \<Rightarrow> (case stored x of RString s \<Rightarrow> True | _ \<Rightarrow> False))"

definition with_counter :: "string \<Rightarrow> entry option \<Rightarrow> world \<Rightarrow> world" where
  "with_counter serviceName e w = w\<lparr>db := (db w)(failure_key serviceName := e)\<rparr>"

definition same_but_counter :: "string \<Rightarrow> world \<Rightarrow> world \<Rightarrow> bool" where
  "same_but_counter s w1 w2 \<longleftrightarrow>
     clock w1 = clock w2 \<and> faults w1 = faults w2 \<and>
     (\<forall>k. k \<noteq> failure_key s \<longrightarrow> db w1 k = db w2 k)"

definition low_eq :: "string \<Rightarrow> world \<Rightarrow> world \<Rightarrow> bool" where
  "low_eq s w1 w2 \<longleftrightarrow>
     same_but_counter s w1 w2 \<and>
     counter_entry (db w1 (failure_key s)) \<and> counter_entry (db w2 (failure_key s))"

definition sim :: "string \<Rightarrow> ('a \<Rightarrow> 'b \<Rightarrow> bool) \<Rightarrow> 'a io \<Rightarrow> 'b io \<Rightarrow> bool" where
  "sim s Q m1 m2 \<longleftrightarrow>
     (\<forall>w1 w2. low_eq s w1 w2 \<longrightarrow>
        low_eq s (snd (m1 w1)) (snd (m2 w2)) \<and>
        (case (fst (m1 w1), fst (m2 w2)) of
           (Inl e1, Inl e2) \<Rightarrow> e1 = e2
         | (Inr a, Inr b) \<Rightarrow> Q a b
         | _ \<Rightarrow> False))"

definition state_key :: "string \<Rightarrow> string" where
  "state_key serviceName = ''circuit:'' @ serviceName @ '':state''"

definition last_failure_key :: "string \<Rightarrow> string" where
  "last_failure_key serviceName = ''circuit:'' @ serviceName @ '':last_failure''"

definition world0 :: world where
  "world0 = \<lparr>db = Map.empty, clock = 1000, faults = []\<rparr>"

definition world_locked :: world where
  "world_locked = store ''lock:a'' (RString ''1000-0.5'') (Some 31000) world0"


definition at :: "int \<Rightarrow> world \<Rightarrow> world" where
  "at t w = w\<lparr>clock := t\<rparr>"

definition world_down :: world where
  "world_down = world0\<lparr>faults := [True]\<rparr>"

definition is_new_job :: "json \<Rightarrow> bool" where
  "is_new_job j =
     (case j of
        JObj kvs \<Rightarrow>
          (case (map_of kvs ''id'', map_of kvs ''data'', map_of kvs ''priority'', map_of kvs ''createdAt'') of
             (Some (JStr i), Some d, Some (JNum p), Some (JNum c)) \<Rightarrow> j = new_job i d p c \<and> wf_json d
           | _ \<Rightarrow> False)
      | _ \<Rightarrow> False)"

definition enqueued_record :: "string \<Rightarrow> bool" where
  "enqueued_record m =
     (case JSON_parse m of None \<Rightarrow> False | Some j \<Rightarrow> is_new_job j \<and> JSON_stringify j = m)"


definition index :: "string \<Rightarrow> world \<Rightarrow> string list" where
  "index q w = (case lookup w (q @ '':queue'') of Some (RZSet zs) \<Rightarrow> map snd zs | _ \<Rightarrow> [])"


















section \<open>Proof setup\<close>

declare parse_value.simps [simp del] parse_elements.simps [simp del]
  parse_member.simps [simp del] parse_members.simps [simp del]

lemmas parse_simps =
  parse_value.simps parse_elements.simps parse_member.simps parse_members.simps

lemmas io_defs = resolve_def reject_def await_def try_catch_def promise_all2_def Date_now_def

lemma digit_char_props: "d < 10 \<Longrightarrow> is_digit (digit_char d) \<and> digit_val (digit_char d) = d"
  by (simp add: is_digit_def digit_val_def digit_char_def)

lemma show_nat_digits: "c \<in> set (show_nat n) \<Longrightarrow> is_digit c"
proof (induction n arbitrary: c rule: show_nat.induct)
  case (1 n)
  show ?case
  proof (cases "n < 10")
    case True
    with "1.prems" show ?thesis
      by (simp add: show_nat.simps [of n] digit_char_props)
  next
    case False
    with "1.prems" "1.IH" show ?thesis
      by (auto simp: show_nat.simps [of n] digit_char_props)
  qed
qed

lemma show_nat_nonempty: "show_nat n \<noteq> []"
  by (subst show_nat.simps) simp

lemma nat_of_digits_snoc: "nat_of_digits (ds @ [c]) = 10 * nat_of_digits ds + digit_val c"
  by (simp add: nat_of_digits_def)

lemma nat_of_digits_show_nat: "nat_of_digits (show_nat n) = n"
proof (induction n rule: show_nat.induct)
  case (1 n)
  show ?case
  proof (cases "n < 10")
    case True
    then show ?thesis
      by (simp add: show_nat.simps [of n] nat_of_digits_def digit_char_props)
  next
    case False
    with "1.IH" show ?thesis
      by (simp add: show_nat.simps [of n] nat_of_digits_snoc digit_char_props)
  qed
qed

lemma digit_char_zero: "d < 10 \<Longrightarrow> 0 < d \<Longrightarrow> digit_char d \<noteq> CHR ''0''"
proof
  assume d: "d < 10" "0 < d" and eq: "digit_char d = CHR ''0''"
  from d have "digit_val (digit_char d) = d" by (simp add: digit_char_props)
  with eq have "digit_val (CHR ''0'') = d" by simp
  then have "d = 0" by (simp add: digit_val_def)
  with d show False by simp
qed

lemma show_nat_hd: "0 < n \<Longrightarrow> hd (show_nat n) \<noteq> CHR ''0''"
proof (induction n rule: show_nat.induct)
  case (1 n)
  show ?case
  proof (cases "n < 10")
    case True
    with "1.prems" show ?thesis
      by (simp add: show_nat.simps [of n] digit_char_zero)
  next
    case False
    then have "0 < n div 10" by simp
    with False "1.IH" show ?thesis
      by (simp add: show_nat.simps [of n] show_nat_nonempty)
  qed
qed

lemma show_nat_length: "1 < length (show_nat n) \<Longrightarrow> 0 < n"
  by (cases "n = 0") (simp_all add: show_nat.simps [of 0])

lemma takeWhile_digits: "rest_ok rest \<Longrightarrow> takeWhile is_digit (show_nat n @ rest) = show_nat n"
  by (cases rest) (auto simp: rest_ok_def takeWhile_append show_nat_digits)

lemma dropWhile_digits: "rest_ok rest \<Longrightarrow> dropWhile is_digit (show_nat n @ rest) = rest"
  by (cases rest) (auto simp: rest_ok_def dropWhile_append show_nat_digits)

lemma show_nat_not_minus: "hd (show_nat n) \<noteq> CHR ''-''"
proof -
  have "hd (show_nat n) \<in> set (show_nat n)" by (simp add: show_nat_nonempty)
  then have "is_digit (hd (show_nat n))" by (rule show_nat_digits)
  then show ?thesis by (auto simp: is_digit_def)
qed

lemma parse_number_show_int:
  assumes "rest_ok rest"
  shows "parse_number (show_int i @ rest) = Some (JNum i, rest)"
proof (cases "i < 0")
  case True
  have "\<not> (1 < length (show_nat (nat (- i))) \<and> hd (show_nat (nat (- i))) = CHR ''0'')"
    using show_nat_hd show_nat_length by blast
  with True assms show ?thesis
    by (simp add: parse_number_def show_int_def takeWhile_digits dropWhile_digits
        show_nat_nonempty nat_of_digits_show_nat Let_def)
next
  case False
  have nz: "\<not> (1 < length (show_nat (nat i)) \<and> hd (show_nat (nat i)) = CHR ''0'')"
    using show_nat_hd show_nat_length by blast
  have "show_nat (nat i) @ rest \<noteq> []" by (simp add: show_nat_nonempty)
  moreover have "hd (show_nat (nat i) @ rest) \<noteq> CHR ''-''"
    by (simp add: show_nat_nonempty show_nat_not_minus)
  ultimately show ?thesis using False assms nz
    by (simp add: parse_number_def show_int_def takeWhile_digits dropWhile_digits
        show_nat_nonempty nat_of_digits_show_nat Let_def)
qed

lemma hex_roundtrip: "d < 16 \<Longrightarrow> hex_val (hex_char d) = Some d"
  by (simp add: hex_val_def hex_char_def Let_def)

lemma hex4_control: "n < 32 \<Longrightarrow> hex4 (CHR ''0'') (CHR ''0'') (hex_char (n div 16)) (hex_char (n mod 16)) = Some n"
proof -
  assume "n < 32"
  then have "n div 16 < 16" by simp
  then have a: "hex_val (hex_char (n div 16)) = Some (n div 16)" by (rule hex_roundtrip)
  have b: "hex_val (hex_char (n mod 16)) = Some (n mod 16)" by (rule hex_roundtrip) simp
  have z: "hex_val (CHR ''0'') = Some 0" by (simp add: hex_val_def)
  show ?thesis by (simp add: hex4_def a b z)
qed

lemma parse_chars_escape:
  "parse_chars (escape_char c @ s) = cons_char c (parse_chars s)"
proof -
  have lt: "(of_char c :: nat) < 256" by simp
  consider (q) "c = CHR 0x22" | (b) "c = CHR 0x5C" | (bs) "c = CHR 0x08" | (ff) "c = CHR 0x0C"
    | (nl) "c = CHR 0x0A" | (cr) "c = CHR 0x0D" | (tab) "c = CHR 0x09"
    | (ctl) "c \<notin> {CHR 0x22, CHR 0x5C, CHR 0x08, CHR 0x0C, CHR 0x0A, CHR 0x0D, CHR 0x09}" "(of_char c :: nat) < 32"
    | (lit) "c \<notin> {CHR 0x22, CHR 0x5C, CHR 0x08, CHR 0x0C, CHR 0x0A, CHR 0x0D, CHR 0x09}" "\<not> (of_char c :: nat) < 32"
    by blast
  then show ?thesis
  proof cases
    case ctl
    then show ?thesis
      by (simp add: escape_char_def hex4_control)
  next
    case lit
    then show ?thesis by (simp add: escape_char_def)
  qed (simp_all add: escape_char_def unescape_def)
qed

lemma parse_chars_quote:
  "parse_chars (concat (map escape_char s) @ CHR 0x22 # rest) = Some (s, rest)"
  by (induction s) (simp_all add: parse_chars_escape cons_char_def)

lemma skip_ws_Cons: "\<not> is_ws c \<Longrightarrow> skip_ws (c # s) = c # s"
  by (simp add: skip_ws_def)

lemma show_int_head: "\<exists>c r. show_int i = c # r \<and> (c = CHR ''-'' \<or> is_digit c)"
proof (cases "i < 0")
  case True
  then show ?thesis by (simp add: show_int_def)
next
  case False
  obtain c r where cr: "show_nat (nat i) = c # r"
    using show_nat_nonempty by (cases "show_nat (nat i)") auto
  then have "c \<in> set (show_nat (nat i))" by simp
  then have "is_digit c" by (rule show_nat_digits)
  with False cr show ?thesis by (simp add: show_int_def)
qed

lemma stringify_head: "\<exists>c r. JSON_stringify v = c # r \<and> value_start c"
proof (cases v)
  case (JNum i)
  then show ?thesis using show_int_head [of i] by (auto simp: value_start_def)
next
  case (JArr vs)
  then show ?thesis by (cases vs) (simp_all add: value_start_def)
next
  case (JObj kvs)
  then show ?thesis by (cases kvs) (auto simp: value_start_def)
qed (simp_all add: value_start_def quote_def)

lemma value_start_not:
  "value_start c \<Longrightarrow> \<not> is_ws c \<and> c \<noteq> CHR '']'' \<and> c \<noteq> CHR ''}'' \<and> c \<noteq> CHR '','' \<and> c \<noteq> CHR '':''"
  by (auto simp: value_start_def is_ws_def is_digit_def)

lemma elements_head: "\<exists>c r. stringify_elements vs = c # r \<and> (c = CHR '','' \<or> c = CHR '']'')"
  by (cases vs) simp_all

lemma members_head: "\<exists>c r. stringify_members kvs = c # r \<and> (c = CHR '','' \<or> c = CHR ''}'')"
  by (cases kvs) auto

lemma rest_ok_elements: "rest_ok (stringify_elements vs @ rest)"
  using elements_head [of vs] by (auto simp: rest_ok_def is_digit_def)

lemma rest_ok_members: "rest_ok (stringify_members kvs @ rest)"
  using members_head [of kvs] by (auto simp: rest_ok_def is_digit_def)

lemma parse_value_number:
  assumes "rest_ok rest"
  shows "parse_value (Suc n) (show_int i @ rest) = Some (JNum i, rest)"
proof -
  obtain c r where cr: "show_int i = c # r" and c: "c = CHR ''-'' \<or> is_digit c"
    using show_int_head by blast
  from c have nws: "\<not> is_ws c" by (auto simp: is_ws_def is_digit_def)
  from c have disp: "c \<noteq> CHR ''n''" "c \<noteq> CHR ''t''" "c \<noteq> CHR ''f''" "c \<noteq> CHR 0x22"
    "c \<noteq> CHR ''[''" "c \<noteq> CHR ''{''"
    by (auto simp: is_digit_def)
  have "parse_value (Suc n) (c # r @ rest) = parse_number (c # r @ rest)"
    using nws disp by (simp add: parse_simps skip_ws_Cons)
  also have "\<dots> = parse_number (show_int i @ rest)" by (simp add: cr)
  also have "\<dots> = Some (JNum i, rest)" using assms by (rule parse_number_show_int)
  finally show ?thesis by (simp add: cr)
qed

lemma parse_value_string:
  "parse_value (Suc n) (quote s @ rest) = Some (JStr s, rest)"
  by (simp add: parse_simps quote_def skip_ws_Cons is_ws_def parse_chars_quote)

lemma parse_key:
  "parse_member (Suc n) (quote k @ CHR '':'' # s) =
     (case parse_value n s of None \<Rightarrow> None | Some (v, r) \<Rightarrow> Some ((k, v), r))"
  by (simp add: parse_simps quote_def skip_ws_Cons is_ws_def parse_chars_quote)

lemma foldl_obj_set:
  "distinct (map fst (acc @ kvs)) \<Longrightarrow>
     foldl (\<lambda>obj (k, v). obj_set k v obj) acc kvs = acc @ kvs"
proof (induction kvs arbitrary: acc)
  case Nil
  then show ?case by simp
next
  case (Cons kv kvs)
  obtain k v where kv: "kv = (k, v)" by (cases kv)
  from Cons.prems kv have "k \<notin> fst ` set acc" by auto
  then have "obj_set k v acc = acc @ [(k, v)]"
    by (induction acc) auto
  with Cons kv show ?case by simp
qed

lemma roundtrip_aux:
  "(\<forall>n rest. length (JSON_stringify v @ rest) < n \<longrightarrow> rest_ok rest \<longrightarrow> wf_json v \<longrightarrow>
      parse_value n (JSON_stringify v @ rest) = Some (v, rest))"
  "(\<forall>n rest. length (stringify_elements vs @ rest) < n \<longrightarrow> list_all wf_json vs \<longrightarrow>
      parse_elements n (stringify_elements vs @ rest) = Some (vs, rest))"
  "(\<forall>n rest. length (stringify_members kvs @ rest) < n \<longrightarrow>
      list_all (\<lambda>kv. wf_json (snd kv)) kvs \<longrightarrow>
      parse_members n (stringify_members kvs @ rest) = Some (kvs, rest))"
proof (induction v and vs and kvs rule: JSON_stringify_stringify_elements_stringify_members.induct)
  case 1
  show ?case
  proof (intro allI impI)
    fix n rest assume "length (JSON_stringify JNull @ rest) < n"
    then obtain m where "n = Suc m" by (cases n) auto
    then show "parse_value n (JSON_stringify JNull @ rest) = Some (JNull, rest)"
      by (simp add: parse_simps skip_ws_Cons is_ws_def)
  qed
next
  case (2 b)
  show ?case
  proof (intro allI impI)
    fix n rest assume "length (JSON_stringify (JBool b) @ rest) < n"
    then obtain m where "n = Suc m" by (cases n) auto
    then show "parse_value n (JSON_stringify (JBool b) @ rest) = Some (JBool b, rest)"
      by (simp add: parse_simps skip_ws_Cons is_ws_def)
  qed
next
  case (3 i)
  show ?case
  proof (intro allI impI)
    fix n rest assume "length (JSON_stringify (JNum i) @ rest) < n" and ok: "rest_ok rest"
    then obtain m where "n = Suc m" by (cases n) auto
    with ok show "parse_value n (JSON_stringify (JNum i) @ rest) = Some (JNum i, rest)"
      by (simp add: parse_value_number)
  qed
next
  case (4 s)
  show ?case
  proof (intro allI impI)
    fix n rest assume "length (JSON_stringify (JStr s) @ rest) < n"
    then obtain m where "n = Suc m" by (cases n) auto
    then show "parse_value n (JSON_stringify (JStr s) @ rest) = Some (JStr s, rest)"
      by (simp add: parse_value_string)
  qed
next
  case 5
  show ?case
  proof (intro allI impI)
    fix n rest assume "length (JSON_stringify (JArr []) @ rest) < n"
    then obtain m where "n = Suc m" by (cases n) auto
    then show "parse_value n (JSON_stringify (JArr []) @ rest) = Some (JArr [], rest)"
      by (simp add: parse_simps skip_ws_Cons is_ws_def)
  qed
next
  case (6 v vs)
  show ?case
  proof (intro allI impI)
    fix n rest
    assume len: "length (JSON_stringify (JArr (v # vs)) @ rest) < n"
      and wf: "wf_json (JArr (v # vs))"
    from len obtain m where n: "n = Suc m" by (cases n) auto
    obtain c r where cr: "JSON_stringify v = c # r" and vs: "value_start c"
      using stringify_head by blast
    from vs have c: "\<not> is_ws c" "c \<noteq> CHR '']''" using value_start_not by blast+
    let ?tail = "stringify_elements vs @ rest"
    from len n have l1: "length (JSON_stringify v @ ?tail) < m" by simp
    then have l2: "length ?tail < m" by simp
    have pv: "parse_value m (JSON_stringify v @ ?tail) = Some (v, ?tail)"
      using "6.IH"(1) l1 wf rest_ok_elements by simp
    have pe: "parse_elements m ?tail = Some (vs, rest)"
      using "6.IH"(2) l2 wf by simp
    have "parse_value (Suc m) (CHR ''['' # (c # r) @ ?tail) = Some (JArr (v # vs), rest)"
      using pv pe c by (simp add: parse_simps skip_ws_Cons is_ws_def cr)
    then show "parse_value n (JSON_stringify (JArr (v # vs)) @ rest) = Some (JArr (v # vs), rest)"
      by (simp add: n cr)
  qed
next
  case 7
  show ?case
  proof (intro allI impI)
    fix n rest assume "length (JSON_stringify (JObj []) @ rest) < n"
    then obtain m where "n = Suc m" by (cases n) auto
    then show "parse_value n (JSON_stringify (JObj []) @ rest) = Some (JObj [], rest)"
      by (simp add: parse_simps skip_ws_Cons is_ws_def)
  qed
next
  case (8 k v kvs)
  show ?case
  proof (intro allI impI)
    fix n rest
    assume len: "length (JSON_stringify (JObj ((k, v) # kvs)) @ rest) < n"
      and wf: "wf_json (JObj ((k, v) # kvs))"
    from len obtain m where n: "n = Suc m" by (cases n) auto
    from len n obtain m' where m: "m = Suc m'" by (cases m) auto
    let ?tail = "stringify_members kvs @ rest"
    from len n m have l1: "length (JSON_stringify v @ ?tail) < m'" by (simp add: quote_def)
    then have l2: "length ?tail < m" using m by simp
    have pv: "parse_value m' (JSON_stringify v @ ?tail) = Some (v, ?tail)"
      using "8.IH"(1) l1 wf rest_ok_members by simp
    have pm: "parse_member m (quote k @ CHR '':'' # JSON_stringify v @ ?tail) = Some ((k, v), ?tail)"
      using pv by (simp add: m parse_key)
    have pe: "parse_members m ?tail = Some (kvs, rest)"
      using "8.IH"(2) l2 wf by simp
    have norm: "foldl (\<lambda>obj (k, v). obj_set k v obj) [] ((k, v) # kvs) = (k, v) # kvs"
      using wf foldl_obj_set [of "[]" "(k, v) # kvs"] by simp
    have q: "skip_ws (quote k @ CHR '':'' # JSON_stringify v @ ?tail) = CHR 0x22 # tl (quote k @ CHR '':'' # JSON_stringify v @ ?tail)"
      by (simp add: parse_simps quote_def skip_ws_Cons is_ws_def)
    have "parse_value (Suc m) (CHR ''{'' # quote k @ CHR '':'' # JSON_stringify v @ ?tail)
            = Some (JObj ((k, v) # kvs), rest)"
      using pm pe norm by (simp add: parse_simps skip_ws_Cons is_ws_def q del: foldl.simps)
    then show "parse_value n (JSON_stringify (JObj ((k, v) # kvs)) @ rest) = Some (JObj ((k, v) # kvs), rest)"
      by (simp add: n)
  qed
next
  case 9
  show ?case
  proof (intro allI impI)
    fix n rest assume "length (stringify_elements [] @ rest) < n"
    then obtain m where "n = Suc m" by (cases n) auto
    then show "parse_elements n (stringify_elements [] @ rest) = Some ([], rest)"
      by (simp add: parse_simps skip_ws_Cons is_ws_def)
  qed
next
  case (10 v vs)
  show ?case
  proof (intro allI impI)
    fix n rest
    assume len: "length (stringify_elements (v # vs) @ rest) < n"
      and wf: "list_all wf_json (v # vs)"
    from len obtain m where n: "n = Suc m" by (cases n) auto
    let ?tail = "stringify_elements vs @ rest"
    from len n have l1: "length (JSON_stringify v @ ?tail) < m" by simp
    then have l2: "length ?tail < m" by simp
    have pv: "parse_value m (JSON_stringify v @ ?tail) = Some (v, ?tail)"
      using "10.IH"(1) l1 wf rest_ok_elements by simp
    have pe: "parse_elements m ?tail = Some (vs, rest)"
      using "10.IH"(2) l2 wf by simp
    show "parse_elements n (stringify_elements (v # vs) @ rest) = Some (v # vs, rest)"
      using pv pe by (simp add: parse_simps n skip_ws_Cons is_ws_def)
  qed
next
  case 11
  show ?case
  proof (intro allI impI)
    fix n rest assume "length (stringify_members [] @ rest) < n"
    then obtain m where "n = Suc m" by (cases n) auto
    then show "parse_members n (stringify_members [] @ rest) = Some ([], rest)"
      by (simp add: parse_simps skip_ws_Cons is_ws_def)
  qed
next
  case (12 k v kvs)
  show ?case
  proof (intro allI impI)
    fix n rest
    assume len: "length (stringify_members ((k, v) # kvs) @ rest) < n"
      and wf: "list_all (\<lambda>kv. wf_json (snd kv)) ((k, v) # kvs)"
    from len obtain m where n: "n = Suc m" by (cases n) auto
    from len n obtain m' where m: "m = Suc m'" by (cases m) auto
    let ?tail = "stringify_members kvs @ rest"
    from len n m have l1: "length (JSON_stringify v @ ?tail) < m'" by (simp add: quote_def)
    then have l2: "length ?tail < m" using m by simp
    have pv: "parse_value m' (JSON_stringify v @ ?tail) = Some (v, ?tail)"
      using "12.IH"(1) l1 wf rest_ok_members by simp
    have pm: "parse_member m (quote k @ CHR '':'' # JSON_stringify v @ ?tail) = Some ((k, v), ?tail)"
      using pv by (simp add: m parse_key)
    have pe: "parse_members m ?tail = Some (kvs, rest)"
      using "12.IH"(2) l2 wf by simp
    show "parse_members n (stringify_members ((k, v) # kvs) @ rest) = Some ((k, v) # kvs, rest)"
      using pm pe by (simp add: parse_simps n skip_ws_Cons is_ws_def)
  qed
qed

lemma JSON_roundtrip: "wf_json v \<Longrightarrow> JSON_parse (JSON_stringify v) = Some v"
  using roundtrip_aux(1) [of v, rule_format, of "[]" "Suc (Suc (length (JSON_stringify v)))"]
  by (simp add: JSON_parse_def rest_ok_def skip_ws_def)








lemma call_eq:
  "call cmd w = (if reachable w then cmd (after_call w) else (Inl ConnectionLost, after_call w))"
  by (cases w) (auto simp: call_def reachable_def after_call_def split: list.splits)

lemma after_call_simps [simp]:
  "db (after_call w) = db w" "clock (after_call w) = clock w" "faults (after_call w) = tl (faults w)"
  by (simp_all add: after_call_def)

lemma lookup_after_call [simp]: "lookup (after_call w) k = lookup w k"
  by (simp add: lookup_def lookup_entry_def split: option.splits)

lemma lookup_cong: "db w1 = db w2 \<Longrightarrow> clock w1 = clock w2 \<Longrightarrow> lookup w1 k = lookup w2 k"
  by (simp add: lookup_def lookup_entry_def split: option.splits)















lemma simI:
  assumes "\<And>w1 w2. low_eq s w1 w2 \<Longrightarrow> low_eq s (snd (m1 w1)) (snd (m2 w2))"
    and "\<And>w1 w2. low_eq s w1 w2 \<Longrightarrow>
           (\<exists>e. fst (m1 w1) = Inl e \<and> fst (m2 w2) = Inl e) \<or>
           (\<exists>a b. fst (m1 w1) = Inr a \<and> fst (m2 w2) = Inr b \<and> Q a b)"
  shows "sim s Q m1 m2"
  unfolding sim_def
proof (intro allI impI conjI)
  fix w1 w2 assume l: "low_eq s w1 w2"
  show "low_eq s (snd (m1 w1)) (snd (m2 w2))" using assms(1) [OF l] .
  show "case (fst (m1 w1), fst (m2 w2)) of
           (Inl e1, Inl e2) \<Rightarrow> e1 = e2
         | (Inr a, Inr b) \<Rightarrow> Q a b
         | _ \<Rightarrow> False"
    using assms(2) [OF l] by auto
qed

lemma simD:
  assumes "sim s Q m1 m2" "low_eq s w1 w2"
  obtains (err) e w1' w2' where "m1 w1 = (Inl e, w1')" "m2 w2 = (Inl e, w2')" "low_eq s w1' w2'"
        | (ok) a b w1' w2' where "m1 w1 = (Inr a, w1')" "m2 w2 = (Inr b, w2')" "Q a b" "low_eq s w1' w2'"
proof -
  from assms have l: "low_eq s (snd (m1 w1)) (snd (m2 w2))"
    and c: "case (fst (m1 w1), fst (m2 w2)) of
           (Inl e1, Inl e2) \<Rightarrow> e1 = e2
         | (Inr a, Inr b) \<Rightarrow> Q a b
         | _ \<Rightarrow> False"
    unfolding sim_def by blast+
  show thesis
  proof (cases "fst (m1 w1)")
    case (Inl e1)
    with c obtain e2 where "fst (m2 w2) = Inl e2" "e1 = e2" by (cases "fst (m2 w2)") auto
    with Inl l show ?thesis by (intro err [of e1 "snd (m1 w1)" "snd (m2 w2)"]) (auto simp: prod_eq_iff)
  next
    case (Inr a)
    with c obtain b where "fst (m2 w2) = Inr b" "Q a b" by (cases "fst (m2 w2)") auto
    with Inr l show ?thesis by (intro ok [of a "snd (m1 w1)" b "snd (m2 w2)"]) (auto simp: prod_eq_iff)
  qed
qed

lemma sim_resolve: "Q a b \<Longrightarrow> sim s Q (resolve a) (resolve b)"
  by (simp add: sim_def resolve_def)

lemma sim_await:
  assumes "sim s Q m1 m2" and "\<And>a b. Q a b \<Longrightarrow> sim s Q' (f1 a) (f2 b)"
  shows "sim s Q' (await m1 f1) (await m2 f2)"
  unfolding sim_def
proof (intro allI impI)
  fix w1 w2 assume l: "low_eq s w1 w2"
  from assms(1) l show "low_eq s (snd (await m1 f1 w1)) (snd (await m2 f2 w2)) \<and>
        (case (fst (await m1 f1 w1), fst (await m2 f2 w2)) of
           (Inl e1, Inl e2) \<Rightarrow> e1 = e2
         | (Inr a, Inr b) \<Rightarrow> Q' a b
         | _ \<Rightarrow> False)"
  proof (cases rule: simD)
    case (err e w1' w2')
    then show ?thesis by (simp add: await_def)
  next
    case (ok a b w1' w2')
    from assms(2) [OF ok(3)] ok(4) show ?thesis
      unfolding sim_def using ok(1,2) by (simp add: await_def)
  qed
qed

lemma sim_try_catch:
  assumes "sim s Q m1 m2" and "\<And>e. sim s Q (h1 e) (h2 e)"
  shows "sim s Q (try_catch m1 h1) (try_catch m2 h2)"
  unfolding sim_def
proof (intro allI impI)
  fix w1 w2 assume l: "low_eq s w1 w2"
  from assms(1) l show "low_eq s (snd (try_catch m1 h1 w1)) (snd (try_catch m2 h2 w2)) \<and>
        (case (fst (try_catch m1 h1 w1), fst (try_catch m2 h2 w2)) of
           (Inl e1, Inl e2) \<Rightarrow> e1 = e2
         | (Inr a, Inr b) \<Rightarrow> Q a b
         | _ \<Rightarrow> False)"
  proof (cases rule: simD)
    case (err e w1' w2')
    from assms(2) [of e] err(3) show ?thesis
      unfolding sim_def using err(1,2) by (simp add: try_catch_def)
  next
    case (ok a b w1' w2')
    then show ?thesis by (simp add: try_catch_def)
  qed
qed

lemma sim_promise_all2:
  assumes "sim s Q1 a1 a2" and "sim s Q2 b1 b2"
  shows "sim s (\<lambda>x y. Q1 (fst x) (fst y) \<and> Q2 (snd x) (snd y)) (promise_all2 a1 b1) (promise_all2 a2 b2)"
  unfolding sim_def
proof (intro allI impI)
  fix w1 w2 assume l: "low_eq s w1 w2"
  let ?Q = "\<lambda>x y. Q1 (fst x) (fst y) \<and> Q2 (snd x) (snd y)"
  from assms(1) l show "low_eq s (snd (promise_all2 a1 b1 w1)) (snd (promise_all2 a2 b2 w2)) \<and>
        (case (fst (promise_all2 a1 b1 w1), fst (promise_all2 a2 b2 w2)) of
           (Inl e1, Inl e2) \<Rightarrow> e1 = e2
         | (Inr a, Inr b) \<Rightarrow> ?Q a b
         | _ \<Rightarrow> False)"
  proof (cases rule: simD)
    case (err e w1' w2')
    from assms(2) err(3) show ?thesis
      by (cases rule: simD) (simp_all add: promise_all2_def err(1,2))
  next
    case (ok a b w1' w2')
    from assms(2) ok(4) show ?thesis
      by (cases rule: simD) (simp_all add: promise_all2_def ok(1,2,3))
  qed
qed

lemma low_eq_faults: "low_eq s w1 w2 \<Longrightarrow> low_eq s (w1\<lparr>faults := fs\<rparr>) (w2\<lparr>faults := fs\<rparr>)"
  by (simp add: low_eq_def same_but_counter_def)

lemma sim_call:
  assumes "sim s Q c1 c2"
  shows "sim s Q (call c1) (call c2)"
  unfolding sim_def
proof (intro allI impI)
  fix w1 w2 assume l: "low_eq s w1 w2"
  then have f: "faults w1 = faults w2" by (simp add: low_eq_def same_but_counter_def)
  show "low_eq s (snd (call c1 w1)) (snd (call c2 w2)) \<and>
        (case (fst (call c1 w1), fst (call c2 w2)) of
           (Inl e1, Inl e2) \<Rightarrow> e1 = e2
         | (Inr a, Inr b) \<Rightarrow> Q a b
         | _ \<Rightarrow> False)"
  proof (cases "faults w2")
    case Nil
    with f assms l show ?thesis by (simp add: call_def sim_def)
  next
    case (Cons lost fs)
    show ?thesis
    proof (cases lost)
      case True
      with Cons f low_eq_faults [OF l, of fs] show ?thesis by (simp add: call_def)
    next
      case False
      with Cons f low_eq_faults [OF l, of fs] assms show ?thesis by (simp add: call_def sim_def)
    qed
  qed
qed

lemma sim_Date_now: "sim s (=) Date_now Date_now"
  by (simp add: sim_def Date_now_def low_eq_def same_but_counter_def)

lemma low_eq_lookup: "low_eq s w1 w2 \<Longrightarrow> k \<noteq> failure_key s \<Longrightarrow> lookup w1 k = lookup w2 k"
  by (simp add: low_eq_def same_but_counter_def lookup_def lookup_entry_def split: option.splits)

lemma sim_GET: "k \<noteq> failure_key s \<Longrightarrow> sim s (=) (GET k) (GET k)"
  unfolding sim_def
  by (auto simp: GET_def dest!: low_eq_lookup [where k = k] split: option.splits rvalue.splits)

lemma sim_GET_counter: "sim s (\<lambda>a b. True) (GET (failure_key s)) (GET (failure_key s))"
  unfolding sim_def
  by (auto simp: GET_def low_eq_def counter_entry_def lookup_def lookup_entry_def
      split: option.splits rvalue.splits)

lemma sim_SET: "k \<noteq> failure_key s \<Longrightarrow> sim s (=) (SET k v) (SET k v)"
  unfolding sim_def
  by (auto simp: SET_def store_def low_eq_def same_but_counter_def)

lemma sim_DEL_counter: "sim s (\<lambda>a b. True) (DEL (failure_key s)) (DEL (failure_key s))"
  unfolding sim_def
  by (auto simp: DEL_def remove_def low_eq_def same_but_counter_def counter_entry_def)

lemma circuit_keys_distinct:
  "state_key s \<noteq> failure_key s"
  "last_failure_key s \<noteq> failure_key s"
  by (simp_all add: failure_key_def state_key_def last_failure_key_def)

lemma sim_await_eq:
  assumes "sim s (=) m1 m2" and "\<And>a. sim s Q (f1 a) (f2 a)"
  shows "sim s Q (await m1 f1) (await m2 f2)"
  using assms(1) by (rule sim_await) (simp add: assms(2))

lemma sim_if:
  assumes "c \<Longrightarrow> sim s Q a1 a2" and "\<not> c \<Longrightarrow> sim s Q b1 b2"
  shows "sim s Q (if c then a1 else b1) (if c then a2 else b2)"
  using assms by simp

lemma sim_checkCircuitBreaker:
  "sim s (=) (checkCircuitBreaker s th1 rt) (checkCircuitBreaker s th2 rt)"
proof -
  have reads: "sim s (\<lambda>x y. True \<and> snd x = snd y)
      (promise_all2 (call (GET (failure_key s))) (call (GET (state_key s))))
      (promise_all2 (call (GET (failure_key s))) (call (GET (state_key s))))"
    by (intro sim_promise_all2 sim_call sim_GET_counter sim_GET circuit_keys_distinct)
  have decide: "sim s (=)
      (if st = Some ''open'' then
         await (call (GET (last_failure_key s))) (\<lambda>lastFailureTime.
           await Date_now (\<lambda>now.
             if truthy lastFailureTime
                \<and> js_gt (js_sub (Num now) (parseInt (the lastFailureTime))) (Num rt)
             then await (call (SET (state_key s) ''half-open'')) (\<lambda>ok. resolve True)
             else resolve False))
       else if st = Some ''half-open'' then
         await (call (SET (state_key s) ''closed'')) (\<lambda>ok.
           await (call (DEL (failure_key s))) (\<lambda>n. resolve True))
       else resolve True)
      (if st = Some ''open'' then
         await (call (GET (last_failure_key s))) (\<lambda>lastFailureTime.
           await Date_now (\<lambda>now.
             if truthy lastFailureTime
                \<and> js_gt (js_sub (Num now) (parseInt (the lastFailureTime))) (Num rt)
             then await (call (SET (state_key s) ''half-open'')) (\<lambda>ok. resolve True)
             else resolve False))
       else if st = Some ''half-open'' then
         await (call (SET (state_key s) ''closed'')) (\<lambda>ok.
           await (call (DEL (failure_key s))) (\<lambda>n. resolve True))
       else resolve True)" for st
    by (intro sim_if sim_await_eq sim_await [OF sim_call [OF sim_DEL_counter]] sim_call
        sim_GET sim_SET sim_Date_now sim_resolve circuit_keys_distinct refl)
  show ?thesis
    unfolding checkCircuitBreaker_def Let_def failure_key_def [symmetric]
      state_key_def [symmetric] last_failure_key_def [symmetric]
    apply (rule sim_try_catch)
     apply (rule sim_await [OF reads])
    subgoal for a b
      apply (cases a, cases b)
      apply (simp only: prod.case snd_conv simp_thms)
      apply (rule decide)
      done
    apply (rule sim_resolve)
    apply (rule refl)
    done
qed

lemma low_eq_with_counter:
  "counter_entry e1 \<Longrightarrow> counter_entry e2 \<Longrightarrow> low_eq s (with_counter s e1 w) (with_counter s e2 w)"
  by (simp add: low_eq_def same_but_counter_def with_counter_def)

lemma circuit_breaker_default_scenario:
  "(case recordCircuitBreakerFailure ''payments'' world0 of (r1, w1) \<Rightarrow>
    case recordCircuitBreakerFailure ''payments'' w1 of (r2, w2) \<Rightarrow>
    case recordCircuitBreakerFailure ''payments'' w2 of (r3, w3) \<Rightarrow>
    case recordCircuitBreakerFailure ''payments'' w3 of (r4, w4) \<Rightarrow>
    case recordCircuitBreakerFailure ''payments'' w4 of (r5, w5) \<Rightarrow>
    case checkCircuitBreaker ''payments'' 5 60000 w5 of (c1, w6) \<Rightarrow>
    case checkCircuitBreaker ''payments'' 5 60000 (at 61000 w6) of (c2, w7) \<Rightarrow>
    case checkCircuitBreaker ''payments'' 5 60000 (at 61001 w7) of (c3, w8) \<Rightarrow>
    case checkCircuitBreaker ''payments'' 5 60000 w8 of (c4, w9) \<Rightarrow>
      (c1, c2, c3, lookup w8 ''circuit:payments:state'', c4,
       lookup w9 ''circuit:payments:state'', lookup w9 ''circuit:payments:failures''))
   = (Inr False, Inr False, Inr True, Some (RString ''half-open''), Inr True,
      Some (RString ''closed''), None)"
  by code_simp

lemma rate_limit_scenario:
  "(case checkRateLimit ''org1'' ''upload'' 3 60 world0 of (r1, w1) \<Rightarrow>
    case checkRateLimit ''org1'' ''upload'' 3 60 (at 2000 w1) of (r2, w2) \<Rightarrow>
    case checkRateLimit ''org1'' ''upload'' 3 60 (at 3000 w2) of (r3, w3) \<Rightarrow>
    case checkRateLimit ''org1'' ''upload'' 3 60 (at 4000 w3) of (r4, w4) \<Rightarrow> [r1, r2, r3, r4])
   = [Inr \<lparr>allowed = True, remaining = Num 2, resetTime = Num 60000\<rparr>,
      Inr \<lparr>allowed = True, remaining = Num 1, resetTime = Num 60000\<rparr>,
      Inr \<lparr>allowed = True, remaining = Num 0, resetTime = Num 60000\<rparr>,
      Inr \<lparr>allowed = False, remaining = Num 0, resetTime = Num 60000\<rparr>]"
  by code_simp

lemma checkRateLimit_unreachable:
  "\<not> reachable w \<Longrightarrow> windowSeconds \<noteq> 0 \<Longrightarrow>
     fst (checkRateLimit identifier action limit windowSeconds w)
       = Inr \<lparr>allowed = False, remaining = NaN,
              resetTime = Num ((clock w div (1000 * windowSeconds) * windowSeconds + windowSeconds) * 1000)\<rparr>"
  by (cases "faults w")
     (simp_all add: checkRateLimit_def io_defs pipeline_exec_def reachable_def reply_value_def
        to_number_def window_start_def Let_def)

lemma checkCircuitBreaker_unreachable:
  "\<not> reachable w \<Longrightarrow> fst (checkCircuitBreaker s th rt w) = Inr True"
  by (simp add: checkCircuitBreaker_def io_defs call_eq Let_def split: prod.splits sum.splits)

lemma try_catch_resolves:
  "(\<And>e w'. \<exists>v. fst (handler e w') = Inr v) \<Longrightarrow> \<exists>v. fst (try_catch body handler w) = Inr v"
  by (cases "body w") (auto simp: try_catch_def split: sum.splits)

lemma checkCircuitBreaker_never_raises: "\<exists>b. fst (checkCircuitBreaker s th rt w) = Inr b"
  unfolding checkCircuitBreaker_def Let_def
  by (rule try_catch_resolves) (auto simp: resolve_def)

lemma cache_unreachable:
  "\<not> reachable w \<Longrightarrow>
     fst (getCachedData k w) = Inr JNull \<and>
     setCachedData k v ttl w = (Inr (), after_call w) \<and>
     invalidateCache k w = (Inr (), after_call w)"
  by (simp add: getCachedData_def setCachedData_def invalidateCache_def io_defs call_eq)

lemma ZADD_faults: "faults (snd (ZADD k score member w)) = faults w"
  by (simp add: ZADD_def store_def split: option.splits rvalue.splits)

lemma enqueueJob_reraises:
  "\<not> reachable w \<Longrightarrow> fst (enqueueJob q d p r w) = Inl ConnectionLost"
  "reachable w \<Longrightarrow> \<not> reachable (after_call w) \<Longrightarrow> \<exists>e. fst (enqueueJob q d p r w) = Inl e"
proof -
  show "\<not> reachable w \<Longrightarrow> fst (enqueueJob q d p r w) = Inl ConnectionLost"
    by (simp add: enqueueJob_def io_defs call_eq Let_def)
next
  assume r: "reachable w" and n: "\<not> reachable (after_call w)"
  let ?job = "JSON_stringify (new_job (''job:'' @ show_int (clock w) @ '':'' @ r) d p (clock w))"
  obtain res w1 where z: "ZADD (q @ '':queue'') p ?job (after_call w) = (res, w1)"
    by (cases "ZADD (q @ '':queue'') p ?job (after_call w)")
  have "faults w1 = faults (after_call w)"
    using ZADD_faults [of "q @ '':queue''" p ?job "after_call w"] z by simp
  with n have "\<not> reachable w1" by (simp add: reachable_def)
  with r z show "\<exists>e. fst (enqueueJob q d p r w) = Inl e"
    by (cases res) (simp_all add: enqueueJob_def io_defs call_eq Let_def)
qed


lemma is_new_job_new_job: "wf_json d \<Longrightarrow> is_new_job (new_job i d p c)"
  by (simp add: is_new_job_def new_job_def)

lemma wf_new_job: "wf_json d \<Longrightarrow> wf_json (new_job i d p c)"
  by (simp add: new_job_def)

lemma enqueued_record_stringify: "wf_json d \<Longrightarrow> enqueued_record (JSON_stringify (new_job i d p c))"
  by (simp add: enqueued_record_def JSON_roundtrip wf_new_job is_new_job_new_job)



lemma queue_jobs_distinct [simp]: "q @ '':queue'' \<noteq> q @ '':jobs''" "q @ '':jobs'' \<noteq> q @ '':queue''"
  by simp_all

lemma reachable_store [simp]: "reachable (store k v d w) = reachable w"
  "reachable (remove k w) = reachable w"
  by (simp_all add: reachable_def store_def remove_def)

lemma after_call_store: "after_call (store k v d w) = store k v d (after_call w)"
  "after_call (remove k w) = remove k (after_call w)"
  by (simp_all add: after_call_def store_def remove_def)

lemma clock_store [simp]: "clock (store k v d w) = clock w" "clock (remove k w) = clock w"
  by (simp_all add: store_def remove_def)







lemma index_cong: "lookup w' (q @ '':queue'') = lookup w (q @ '':queue'') \<Longrightarrow> index q w' = index q w"
  by (simp add: index_def)










































section \<open>Claims\<close>

subsection \<open>C1: one owner per lock\<close>




subsection \<open>C2: releaseLock deletes only for the owner\<close>

text \<open>
  Claim C2. \<open>releaseLock(key, token)\<close> deletes the key and returns true exactly when the
  value stored at the key equals \<open>token\<close>; when the stored value differs or the key is absent
  (or expired, or holds another type) it returns false and the store is left as it was; the
  check and the delete are one scripted command, that is one round trip to the store.
  The equivalence is stated for every world: \<open>reachable w\<close> says that this single round trip
  is not lost, and on a lost connection the result is false with the store unchanged.
\<close>

theorem releaseLock_checks_owner:
  "fst (releaseLock key token w) = Inr (reachable w \<and> lookup w key = Some (RString token))
   \<and> db (snd (releaseLock key token w)) =
       (if reachable w \<and> lookup w key = Some (RString token) then (db w)(key := None) else db w)
   \<and> clock (snd (releaseLock key token w)) = clock w
   \<and> faults (snd (releaseLock key token w)) = tl (faults w)"
  by (auto simp: releaseLock_def release_script_def io_defs call_eq GET_def DEL_def remove_def
      split: option.splits rvalue.splits)

theorem releaseLock_checks_owner_witness:
  "fst (releaseLock ''lock:a'' ''1000-0.5'' world_locked) = Inr True
   \<and> db (snd (releaseLock ''lock:a'' ''1000-0.5'' world_locked)) ''lock:a'' = None
   \<and> fst (releaseLock ''lock:a'' ''999-0.1'' world_locked) = Inr False
   \<and> lookup (snd (releaseLock ''lock:a'' ''999-0.1'' world_locked)) ''lock:a''
       = Some (RString ''1000-0.5'')"
proof -
  have r: "reachable world_locked"
    by (simp add: reachable_def world_locked_def world0_def store_def)
  have l: "lookup world_locked ''lock:a'' = Some (RString ''1000-0.5'')"
    by (simp add: lookup_def lookup_entry_def live_def world_locked_def world0_def store_def)
  have d: "db (snd (releaseLock ''lock:a'' ''999-0.1'' world_locked)) = db world_locked"
    using releaseLock_checks_owner [of "''lock:a''" "''999-0.1''" world_locked] l by simp
  have c: "clock (snd (releaseLock ''lock:a'' ''999-0.1'' world_locked)) = clock world_locked"
    using releaseLock_checks_owner [of "''lock:a''" "''999-0.1''" world_locked] by simp
  have "lookup (snd (releaseLock ''lock:a'' ''999-0.1'' world_locked)) ''lock:a''
          = lookup world_locked ''lock:a''"
    by (rule lookup_cong [OF d c])
  then show ?thesis
    using releaseLock_checks_owner [of "''lock:a''" "''1000-0.5''" world_locked]
      releaseLock_checks_owner [of "''lock:a''" "''999-0.1''" world_locked] r l
    by simp
qed

subsection \<open>C3: the circuit breaker's threshold\<close>

text \<open>
  Claim C3 says that after \<open>failureThreshold\<close> consecutive \<open>recordCircuitBreakerFailure\<close>
  calls \<open>checkCircuitBreaker(serviceName, failureThreshold, recoveryTimeoutMs)\<close> returns
  false, for every \<open>failureThreshold\<close>. The code opens the circuit at the constant 5
  (\<open>if (failures >= 5)\<close> in \<open>recordCircuitBreakerFailure\<close>, which has no threshold
  parameter), and \<open>checkCircuitBreaker\<close> never reads its \<open>failureThreshold\<close> argument.
  With a threshold of 3, three recorded failures leave the counter at 3 and the state unset,
  and the check permits the call.
\<close>

theorem circuit_breaker_threshold_ignored:
  "(case recordCircuitBreakerFailure ''payments'' world0 of (r1, w1) \<Rightarrow>
    case recordCircuitBreakerFailure ''payments'' w1 of (r2, w2) \<Rightarrow>
    case recordCircuitBreakerFailure ''payments'' w2 of (r3, w3) \<Rightarrow>
    case checkCircuitBreaker ''payments'' 3 60000 w3 of (r4, w4) \<Rightarrow>
      (r4, lookup w3 ''circuit:payments:failures'', lookup w3 ''circuit:payments:state''))
   = (Inr True, Some (RString ''3''), None)"
  by code_simp

subsection \<open>C4: the rate limiter counts every call\<close>

text \<open>
  Claim C4 says that \<open>limit\<close> calls in one window are allowed with \<open>remaining\<close> counting
  down to 0 and that the next call is refused. The sorted-set member of a call is the
  millisecond timestamp (\<open>zadd(key, now, now.toString())\<close>), so two calls in the same
  millisecond are one member and are counted once. With \<open>limit = 1\<close>, the second call of the
  same millisecond is allowed, with \<open>remaining = 0\<close> again.
\<close>

theorem rate_limit_same_millisecond:
  "(case checkRateLimit ''org1'' ''upload'' 1 60 world0 of (r1, w1) \<Rightarrow>
    case checkRateLimit ''org1'' ''upload'' 1 60 w1 of (r2, w2) \<Rightarrow> (r1, r2))
   = (Inr \<lparr>allowed = True, remaining = Num 0, resetTime = Num 60000\<rparr>,
      Inr \<lparr>allowed = True, remaining = Num 0, resetTime = Num 60000\<rparr>)"
  by code_simp

subsection \<open>C5: the rate limiter's window\<close>

text \<open>
  Claim C5 says that a rate-limited caller is allowed again once a new window has begun, that
  no entry older than \<open>now - windowSeconds\<close> is kept, and that the count covers only the
  entries of the current window. The scores are milliseconds (\<open>now\<close>) while the bounds of
  \<open>zremrangebyscore\<close> and \<open>zcount\<close> are seconds (\<open>windowStart\<close>), so nothing is ever
  pruned and every entry is always counted, until the key itself expires
  (\<open>2 * windowSeconds\<close> after the last call). With \<open>limit = 1\<close> and a window of 60 s:
  calls at 1 s and 59 s (the second refused), then a call at 121 s, two windows later, is
  still refused, and the set still holds the entries of 1 s and 59 s.
\<close>

theorem rate_limit_never_resets:
  "(case checkRateLimit ''org1'' ''upload'' 1 60 world0 of (r1, w1) \<Rightarrow>
    case checkRateLimit ''org1'' ''upload'' 1 60 (at 59000 w1) of (r2, w2) \<Rightarrow>
    case checkRateLimit ''org1'' ''upload'' 1 60 (at 121000 w2) of (r3, w3) \<Rightarrow>
      (r1, r2, r3, lookup w3 ''ratelimit:upload:org1''))
   = (Inr \<lparr>allowed = True, remaining = Num 0, resetTime = Num 60000\<rparr>,
      Inr \<lparr>allowed = False, remaining = Num 0, resetTime = Num 60000\<rparr>,
      Inr \<lparr>allowed = False, remaining = Num 0, resetTime = Num 180000\<rparr>,
      Some (RZSet [(1000, ''1000''), (59000, ''59000''), (121000, ''121000'')]))"
  by code_simp

subsection \<open>C6: job lifecycle\<close>




subsection \<open>C7: behaviour on a store error\<close>

text \<open>
  Claim C7 says that on a store error \<open>checkRateLimit\<close> returns
  \<open>{allowed: true, remaining: limit}\<close>, \<open>checkCircuitBreaker\<close> returns true, the cache
  operations act as a miss or a no-op, and \<open>enqueueJob\<close> alone re-raises.
  The lemmas \<open>checkCircuitBreaker_unreachable\<close>, \<open>checkCircuitBreaker_never_raises\<close>,
  \<open>cache_unreachable\<close> and \<open>enqueueJob_reraises\<close> above give the circuit breaker, the
  cache and \<open>enqueueJob\<close> their part. \<open>checkRateLimit\<close> differs: its four commands go
  through a pipeline, whose \<open>exec()\<close> resolves with one \<open>[err, result]\<close> pair per command
  (the code reads \<open>results[2][1]\<close>) and does not reject when the connection is lost. The
  catch block that would fail open is not reached; \<open>results[2][1]\<close> is \<open>undefined\<close>,
  \<open>undefined <= limit\<close> is false and \<open>limit - undefined\<close> is NaN: the limiter fails closed.
\<close>

theorem rate_limit_fails_closed:
  "fst (checkRateLimit ''org1'' ''upload'' 3 60 world_down)
     = Inr \<lparr>allowed = False, remaining = NaN, resetTime = Num 60000\<rparr>"
  by code_simp

subsection \<open>C8: cache round trip\<close>



subsection \<open>C9: checkCircuitBreaker ignores its threshold and the failure counter\<close>

text \<open>
  Claim C9. The boolean returned by \<open>checkCircuitBreaker\<close> and what it writes to the store do
  not depend on the \<open>failureThreshold\<close> argument nor on the stored failures counter. Two runs
  from worlds that differ only in the counter (absent or any string, with any expiry) and in
  the threshold return the same value and end in worlds that agree on the clock, on the
  remaining connection faults and on every key other than the counter itself
  (\<open>same_but_counter\<close>); with the same world and only the thresholds different, the two runs
  are equal.
\<close>

theorem checkCircuitBreaker_independent:
  assumes "counter_entry e1" "counter_entry e2"
  shows "fst (checkCircuitBreaker s th1 rt (with_counter s e1 w))
           = fst (checkCircuitBreaker s th2 rt (with_counter s e2 w))
       \<and> same_but_counter s (snd (checkCircuitBreaker s th1 rt (with_counter s e1 w)))
                              (snd (checkCircuitBreaker s th2 rt (with_counter s e2 w)))
       \<and> checkCircuitBreaker s th1 rt w = checkCircuitBreaker s th2 rt w"
proof -
  from sim_checkCircuitBreaker [of s th1 rt th2] low_eq_with_counter [OF assms, of s w]
  have "fst (checkCircuitBreaker s th1 rt (with_counter s e1 w))
           = fst (checkCircuitBreaker s th2 rt (with_counter s e2 w))
       \<and> same_but_counter s (snd (checkCircuitBreaker s th1 rt (with_counter s e1 w)))
                              (snd (checkCircuitBreaker s th2 rt (with_counter s e2 w)))"
    by (cases rule: simD) (simp_all add: low_eq_def)
  moreover have "checkCircuitBreaker s th1 rt w = checkCircuitBreaker s th2 rt w"
    by (simp add: checkCircuitBreaker_def)
  ultimately show ?thesis by simp
qed

theorem checkCircuitBreaker_independent_witness:
  "counter_entry None \<and> counter_entry (Some \<lparr>stored = RString ''7'', deadline = None\<rparr>)
   \<and> fst (checkCircuitBreaker ''payments'' 5 60000 (with_counter ''payments'' None world0))
       = fst (checkCircuitBreaker ''payments'' 1 60000
                (with_counter ''payments'' (Some \<lparr>stored = RString ''7'', deadline = None\<rparr>) world0))"
proof -
  have h1: "counter_entry None" by (simp add: counter_entry_def)
  have h2: "counter_entry (Some \<lparr>stored = RString ''7'', deadline = None\<rparr>)"
    by (simp add: counter_entry_def)
  from checkCircuitBreaker_independent [OF h1 h2, of "''payments''" 5 60000 world0 1] h1 h2
  show ?thesis by blast
qed

subsection \<open>C10: dequeueJob returns the record as enqueued\<close>



end
